theory Spec2Isabelle
  imports Complex_Main "HOL-Library.Multiset"
begin

section \<open>Information/Social Epidemiology: the simulation kernel\<close>

text \<open>
  A shallow embedding of \<^verbatim>\<open>isepi.py\<close> (the agent, its step and the metrics) and of
  \<^verbatim>\<open>grahamscheduler.py\<close> (the partitioned scheduler). Python exceptions are values of
  \<open>error\<close>; a function that can raise returns \<open>error + 'a\<close> with \<open>Inl\<close> the exception.
  Python floats are idealised as \<open>real\<close>; counters are \<open>nat\<close>; the earmark and the
  partition count are \<open>int\<close>.
\<close>

subsection \<open>Exceptions\<close>

datatype error =
    AttributeError
  | KeyError
  | ZeroDivisionError
  | IndexError
  | ValueError
  | SystemExit string

text \<open>Python's true division \<^verbatim>\<open>x / y\<close>: it raises on a zero divisor.\<close>

definition py_truediv :: "real \<Rightarrow> real \<Rightarrow> error + real" where
  "py_truediv x y = (if y = 0 then Inl ZeroDivisionError else Inr (x / y))"

subsection \<open>Stages\<close>

text \<open>\<^verbatim>\<open>class Stage(Enum)\<close>, lines 27 to 31: the enumeration has four members.\<close>

datatype Stage = SUSCEPTIBLE | INFECTED | RECOVERED | DECEASED

text \<open>
  The attribute access \<^verbatim>\<open>Stage.NAME\<close>. The source also writes \<^verbatim>\<open>Stage.EXPOSED\<close>,
  \<^verbatim>\<open>Stage.ASYMPTOMATIC\<close> and \<^verbatim>\<open>Stage.SEVERE\<close>; an \<^verbatim>\<open>Enum\<close> class raises
  \<^verbatim>\<open>AttributeError\<close> for a name that is not one of its members.
\<close>

definition Stage_getattr :: "string \<Rightarrow> error + Stage" where
  "Stage_getattr name =
     (if name = ''SUSCEPTIBLE'' then Inr SUSCEPTIBLE
      else if name = ''INFECTED'' then Inr INFECTED
      else if name = ''RECOVERED'' then Inr RECOVERED
      else if name = ''DECEASED'' then Inr DECEASED
      else Inl AttributeError)"

subsection \<open>Agents and the model\<close>

text \<open>
  \<^verbatim>\<open>ISEpiAgent\<close>. The fields up to \<open>curr_recovery\<close> are those \<^verbatim>\<open>__init__\<close> sets. The
  source reads \<open>isolated\<close>, \<open>isolated_but_inefficient\<close>, \<open>earmark\<close> and \<open>astep\<close> but
  initialises them nowhere; they are taken here as attributes the agent has. \<open>pos\<close> is
  the attribute the grid maintains.
\<close>

record ISEpiAgent =
  unique_id :: nat
  stage :: Stage
  incubation_time :: nat
  dwelling_time :: nat
  recovery_time :: nat
  prob_contagion :: real
  mortality_value :: real
  severity_value :: real
  curr_dwelling :: nat
  curr_incubation :: nat
  curr_recovery :: nat
  isolated :: bool
  isolated_but_inefficient :: bool
  earmark :: int
  astep :: nat
  pos :: "int \<times> int"

text \<open>
  The model as the agent and the metrics see it. \<open>agents\<close> is \<^verbatim>\<open>model.schedule.agents\<close>
  in registration order; \<open>grid\<close> gives the \<^verbatim>\<open>unique_id\<close>s held by each cell of
  \<^verbatim>\<open>model.grid\<close>, in the cell's list order; \<open>random\<close> is the model's own random stream
  (\<^verbatim>\<open>model.random\<close>); \<open>np_random\<close> is the process-wide stream that
  \<^verbatim>\<open>scipy.stats.bernoulli.rvs\<close> and \<^verbatim>\<open>poisson.rvs\<close> draw from when no
  \<^verbatim>\<open>random_state\<close> is passed, as everywhere in the source. The model's
  \<^verbatim>\<open>prob_contagion\<close> is the field \<open>m_prob_contagion\<close>.
\<close>

record ('r, 'g) ISEpiModel =
  agents :: "ISEpiAgent list"
  grid :: "int \<times> int \<Rightarrow> nat list"
  rate_inbound :: real
  prob_isolation_effective :: real
  m_prob_contagion :: real
  avg_dwell :: real
  random :: 'r
  np_random :: 'g

fun lookup_agent :: "ISEpiAgent list \<Rightarrow> nat \<Rightarrow> ISEpiAgent option" where
  "lookup_agent [] i = None"
| "lookup_agent (a # as) i = (if unique_id a = i then Some a else lookup_agent as i)"

text \<open>
  \<^verbatim>\<open>model.grid.get_cell_list_contents([pos])\<close>: the agents of one cell. A cell holds
  references to agents; here it holds their ids and the agents are read from the
  registry.
\<close>

definition get_cell_list_contents :: "('r, 'g) ISEpiModel \<Rightarrow> int \<times> int \<Rightarrow> ISEpiAgent list" where
  "get_cell_list_contents m p = List.map_filter (lookup_agent (agents m)) (grid m p)"

subsection \<open>Metrics\<close>

text \<open>\<^verbatim>\<open>count_type\<close>, lines 176 to 183; the loop carries the counter \<open>cnt\<close> (the source's \<^verbatim>\<open>count\<close>).\<close>

fun count_type_loop :: "ISEpiAgent list \<Rightarrow> Stage \<Rightarrow> nat \<Rightarrow> nat" where
  "count_type_loop [] st cnt = cnt"
| "count_type_loop (agent # rest) st cnt =
     count_type_loop rest st (if stage agent = st then cnt + 1 else cnt)"

definition count_type :: "('r, 'g) ISEpiModel \<Rightarrow> Stage \<Rightarrow> nat" where
  "count_type m st = count_type_loop (agents m) st 0"

text \<open>\<^verbatim>\<open>ISEpiAgent.interactants\<close>, lines 79 to 88.\<close>

fun interactants_loop :: "ISEpiAgent \<Rightarrow> ISEpiAgent list \<Rightarrow> nat \<Rightarrow> nat" where
  "interactants_loop self [] cnt = cnt"
| "interactants_loop self (agent # rest) cnt =
     interactants_loop self rest
       (if unique_id agent \<noteq> unique_id self
        then (if \<not> isolated agent \<or> isolated_but_inefficient self then cnt + 1 else cnt)
        else cnt)"

definition interactants :: "('r, 'g) ISEpiModel \<Rightarrow> ISEpiAgent \<Rightarrow> nat" where
  "interactants m self =
     (if stage self \<noteq> DECEASED \<and> stage self \<noteq> RECOVERED
      then interactants_loop self (get_cell_list_contents m (pos self)) 0
      else 0)"

text \<open>\<^verbatim>\<open>compute_contacts\<close>, lines 212 to 218.\<close>

fun compute_contacts_loop :: "('r, 'g) ISEpiModel \<Rightarrow> ISEpiAgent list \<Rightarrow> nat \<Rightarrow> nat" where
  "compute_contacts_loop m [] cnt = cnt"
| "compute_contacts_loop m (agent # rest) cnt =
     compute_contacts_loop m rest (cnt + interactants m agent)"

definition compute_contacts :: "('r, 'g) ISEpiModel \<Rightarrow> error + real" where
  "compute_contacts m =
     py_truediv (real (compute_contacts_loop m (agents m) 0)) (real (length (agents m)))"

text \<open>
  \<^verbatim>\<open>compute_eff_reprod_number\<close>, lines 223 to 237. The loop carries the pair
  \<open>(infected, infected_time)\<close>, both floats starting at \<open>0.0\<close>.
\<close>

fun eff_reprod_loop :: "ISEpiAgent list \<Rightarrow> real \<times> real \<Rightarrow> real \<times> real" where
  "eff_reprod_loop [] acc = acc"
| "eff_reprod_loop (agent # rest) (infected, infected_time) =
     eff_reprod_loop rest
       (if stage agent = INFECTED
        then (infected + 1, infected_time + real (incubation_time agent))
        else (infected, infected_time))"

definition compute_eff_reprod_number :: "('r, 'g) ISEpiModel \<Rightarrow> error + real" where
  "compute_eff_reprod_number m =
     (case eff_reprod_loop (agents m) (0, 0) of
        (infected, infected_time) \<Rightarrow>
          (case compute_contacts m of
             Inl e \<Rightarrow> Inl e
           | Inr avg_contacts \<Rightarrow>
               (case py_truediv infected_time infected of
                  Inl e \<Rightarrow> Inl e
                | Inr q \<Rightarrow> Inr (m_prob_contagion m * avg_contacts * q))))"

subsection \<open>Library operations\<close>

text \<open>
  What the source calls in \<^verbatim>\<open>scipy.stats\<close>, in Python's \<^verbatim>\<open>random\<close> and in mesa's grid,
  taken as parameters. \<open>bernoulli_rvs\<close> and \<open>poisson_rvs\<close> are called in the source
  without a \<^verbatim>\<open>random_state\<close>, so they read and advance the process-wide stream
  \<open>np_random\<close>; \<open>random_choice\<close> (\<^verbatim>\<open>self.random.choice\<close>) and \<open>random_shuffle\<close>
  (\<^verbatim>\<open>self.model.random.shuffle\<close>) read and advance the model's stream \<open>random\<close>.
  \<open>get_neighborhood\<close> is the grid's Moore neighbourhood without the centre, and
  \<open>move_agent uid old new cells\<close> is the grid's move of one agent between two cells.
  An \<^verbatim>\<open>rvs\<close> call raises \<^verbatim>\<open>ValueError\<close> for a parameter outside the distribution's
  domain, and \<^verbatim>\<open>move_agent\<close> can raise too, so these three return a sum.
\<close>

record ('r, 'g) lib =
  bernoulli_rvs :: "real \<Rightarrow> 'g \<Rightarrow> error + bool \<times> 'g"
  poisson_rvs :: "real \<Rightarrow> 'g \<Rightarrow> error + nat \<times> 'g"
  random_choice :: "(int \<times> int) list \<Rightarrow> 'r \<Rightarrow> (int \<times> int) \<times> 'r"
  random_shuffle :: "nat list \<Rightarrow> 'r \<Rightarrow> nat list \<times> 'r"
  get_neighborhood :: "int \<times> int \<Rightarrow> (int \<times> int) list"
  move_agent :: "nat \<Rightarrow> int \<times> int \<Rightarrow> int \<times> int \<Rightarrow> (int \<times> int \<Rightarrow> nat list)
                 \<Rightarrow> error + (int \<times> int \<Rightarrow> nat list)"

subsection \<open>The agent's step\<close>

text \<open>
  An assignment to an attribute of \<^verbatim>\<open>self\<close>: the local value \<open>self\<close> is changed and
  written back to the registry at once, so the registry always holds the agent as the
  program sees it.
\<close>

definition put :: "ISEpiAgent \<Rightarrow> ('r, 'g) ISEpiModel \<Rightarrow> ('r, 'g) ISEpiModel" where
  "put self m =
     m\<lparr>agents := map (\<lambda>a. if unique_id a = unique_id self then self else a) (agents m)\<rparr>"

text \<open>\<^verbatim>\<open>ISEpiAgent.is_contagious\<close>, lines 75 and 76, with Python's short-circuit \<^verbatim>\<open>or\<close>.\<close>

definition is_contagious :: "ISEpiAgent \<Rightarrow> error + bool" where
  "is_contagious self =
     (case Stage_getattr ''EXPOSED'' of
        Inl e \<Rightarrow> Inl e
      | Inr s1 \<Rightarrow>
          if stage self = s1 then Inr True
          else (case Stage_getattr ''ASYMPTOMATIC'' of
                  Inl e \<Rightarrow> Inl e
                | Inr s2 \<Rightarrow> Inr (stage self = s2)))"

text \<open>
  \<^verbatim>\<open>c.add_contact_trace(self)\<close>, line 107: no class of the source, and not mesa's
  \<^verbatim>\<open>Agent\<close>, defines a method of this name, so the call raises.
\<close>

definition add_contact_trace ::
  "ISEpiAgent \<Rightarrow> ISEpiAgent \<Rightarrow> ('r, 'g) ISEpiModel \<Rightarrow> error + ('r, 'g) ISEpiModel" where
  "add_contact_trace c self m = Inl AttributeError"

text \<open>\<^verbatim>\<open>ISEpiAgent.move\<close>, lines 147 to 162. \<^verbatim>\<open>random.choice\<close> raises on an empty list.\<close>

definition ISEpiAgent_move ::
  "('r, 'g) lib \<Rightarrow> ISEpiAgent \<Rightarrow> ('r, 'g) ISEpiModel
     \<Rightarrow> error + (ISEpiAgent \<times> ('r, 'g) ISEpiModel)" where
  "ISEpiAgent_move L self m =
     (if curr_dwelling self > 0
      then (let self1 = self\<lparr>curr_dwelling := curr_dwelling self - 1\<rparr>
            in Inr (self1, put self1 m))
      else (let possible_steps = get_neighborhood L (pos self) in
            if possible_steps = [] then Inl IndexError
            else (case random_choice L possible_steps (random m) of
                    (new_position, r) \<Rightarrow>
                      (case move_agent L (unique_id self) (pos self) new_position (grid m) of
                         Inl e \<Rightarrow> Inl e
                       | Inr cells \<Rightarrow>
                           (let self1 = self\<lparr>pos := new_position\<rparr>;
                                m1 = put self1 (m\<lparr>grid := cells, random := r\<rparr>)
                            in (case poisson_rvs L (avg_dwell m1) (np_random m1) of
                                  Inl e \<Rightarrow> Inl e
                                | Inr (d, g) \<Rightarrow>
                                    (let self2 = self1\<lparr>curr_dwelling := d\<rparr>
                                     in Inr (self2, put self2 (m1\<lparr>np_random := g\<rparr>)))))))))"

text \<open>
  Lines 93 to 95: the returning-traveller trial, the first \<^verbatim>\<open>if\<close> of \<^verbatim>\<open>step\<close>.
\<close>

definition traveler_trial ::
  "('r, 'g) lib \<Rightarrow> ISEpiAgent \<Rightarrow> ('r, 'g) ISEpiModel
     \<Rightarrow> error + (ISEpiAgent \<times> ('r, 'g) ISEpiModel)" where
  "traveler_trial L self m =
     (if stage self = SUSCEPTIBLE
      then (case bernoulli_rvs L (rate_inbound m) (np_random m) of
              Inl e \<Rightarrow> Inl e
            | Inr (b, g) \<Rightarrow>
                (if b then (let self1 = self\<lparr>stage := INFECTED\<rparr>
                            in Inr (self1, put self1 (m\<lparr>np_random := g\<rparr>)))
                 else Inr (self, m\<lparr>np_random := g\<rparr>)))
      else Inr (self, m))"

text \<open>
  Lines 105 to 114: the loop over the cellmates. It returns \<^verbatim>\<open>infected_contact\<close> with
  the agent and the model; both \<^verbatim>\<open>break\<close>s end the recursion.
\<close>

fun scan_cellmates ::
  "('r, 'g) lib \<Rightarrow> ISEpiAgent \<Rightarrow> ISEpiAgent list \<Rightarrow> ('r, 'g) ISEpiModel
     \<Rightarrow> error + (bool \<times> ISEpiAgent \<times> ('r, 'g) ISEpiModel)" where
  "scan_cellmates L self [] m = Inr (False, self, m)"
| "scan_cellmates L self (c # rest) m =
     (case is_contagious c of
        Inl e \<Rightarrow> Inl e
      | Inr contagious \<Rightarrow>
          if contagious
          then (case add_contact_trace c self m of
                  Inl e \<Rightarrow> Inl e
                | Inr m1 \<Rightarrow>
                    if isolated self
                    then (case bernoulli_rvs L (1 - prob_isolation_effective m1) (np_random m1) of
                            Inl e \<Rightarrow> Inl e
                          | Inr (b, g) \<Rightarrow>
                              if b
                              then (let self1 = self\<lparr>isolated_but_inefficient := True\<rparr>
                                    in Inr (True, self1, put self1 (m1\<lparr>np_random := g\<rparr>)))
                              else Inr (True, self, m1\<lparr>np_random := g\<rparr>))
                    else Inr (True, self, m1))
          else scan_cellmates L self rest m)"

text \<open>Lines 116 to 118: the contagion trial after a counted contact.\<close>

definition contagion_trial ::
  "('r, 'g) lib \<Rightarrow> bool \<Rightarrow> ISEpiAgent \<Rightarrow> ('r, 'g) ISEpiModel
     \<Rightarrow> error + (ISEpiAgent \<times> ('r, 'g) ISEpiModel)" where
  "contagion_trial L infected_contact self m =
     (if infected_contact
      then (case bernoulli_rvs L (prob_contagion self) (np_random m) of
              Inl e \<Rightarrow> Inl e
            | Inr (b, g) \<Rightarrow>
                (if b then (let self1 = self\<lparr>stage := INFECTED\<rparr>
                            in Inr (self1, put self1 (m\<lparr>np_random := g\<rparr>)))
                 else Inr (self, m\<lparr>np_random := g\<rparr>)))
      else Inr (self, m))"

text \<open>Lines 97 to 124: the branch of an agent that is still susceptible.\<close>

definition susceptible_branch ::
  "('r, 'g) lib \<Rightarrow> ISEpiAgent \<Rightarrow> ('r, 'g) ISEpiModel
     \<Rightarrow> error + (ISEpiAgent \<times> ('r, 'g) ISEpiModel)" where
  "susceptible_branch L self m =
     (let cellmates = get_cell_list_contents m (pos self) in
      case scan_cellmates L self cellmates m of
        Inl e \<Rightarrow> Inl e
      | Inr (infected_contact, self1, m1) \<Rightarrow>
          (case contagion_trial L infected_contact self1 m1 of
             Inl e \<Rightarrow> Inl e
           | Inr (self2, m2) \<Rightarrow>
               if \<not> isolated self2 then ISEpiAgent_move L self2 m2 else Inr (self2, m2)))"

text \<open>Lines 125 to 132: the branch of an infected agent.\<close>

definition infected_branch ::
  "('r, 'g) lib \<Rightarrow> ISEpiAgent \<Rightarrow> ('r, 'g) ISEpiModel
     \<Rightarrow> error + (ISEpiAgent \<times> ('r, 'g) ISEpiModel)" where
  "infected_branch L self m =
     (if curr_incubation self + curr_recovery self < incubation_time self + recovery_time self
      then (let self1 = self\<lparr>curr_recovery := curr_recovery self + 1\<rparr>;
                m1 = put self1 m
            in (case bernoulli_rvs L (severity_value self1) (np_random m1) of
                  Inl e \<Rightarrow> Inl e
                | Inr (b, g) \<Rightarrow>
                    if b
                    then (case Stage_getattr ''SEVERE'' of
                            Inl e \<Rightarrow> Inl e
                          | Inr s \<Rightarrow>
                              (let self2 = self1\<lparr>stage := s\<rparr>
                               in Inr (self2, put self2 (m1\<lparr>np_random := g\<rparr>))))
                    else Inr (self1, m1\<lparr>np_random := g\<rparr>)))
      else (let self1 = self\<lparr>stage := RECOVERED\<rparr> in Inr (self1, put self1 m)))"

text \<open>Lines 133 to 138: the branch of a recovered agent.\<close>

definition recovered_branch ::
  "('r, 'g) lib \<Rightarrow> ISEpiAgent \<Rightarrow> ('r, 'g) ISEpiModel
     \<Rightarrow> error + (ISEpiAgent \<times> ('r, 'g) ISEpiModel)" where
  "recovered_branch L self m =
     (let cellmates = get_cell_list_contents m (pos self);
          self1 = self\<lparr>curr_recovery := 0\<rparr>
      in ISEpiAgent_move L self1 (put self1 m))"

text \<open>Lines 97 to 143: the chain of \<^verbatim>\<open>if\<close> and \<^verbatim>\<open>elif\<close> on the stage.\<close>

definition stage_branch ::
  "('r, 'g) lib \<Rightarrow> ISEpiAgent \<Rightarrow> ('r, 'g) ISEpiModel
     \<Rightarrow> error + (ISEpiAgent \<times> ('r, 'g) ISEpiModel)" where
  "stage_branch L self m =
     (if stage self = SUSCEPTIBLE then susceptible_branch L self m
      else if stage self = INFECTED then infected_branch L self m
      else if stage self = RECOVERED then recovered_branch L self m
      else if stage self = DECEASED then Inr (self, m)
      else Inl (SystemExit ''Unknown stage: aborting.''))"

text \<open>
  \<^verbatim>\<open>ISEpiAgent.step\<close>, lines 90 to 145, for the agent registered under \<open>i\<close>
  (the scheduler's \<^verbatim>\<open>self._agents[unique_id].step()\<close>; the lookup raises for an id
  that is not registered).
\<close>

definition ISEpiAgent_step ::
  "('r, 'g) lib \<Rightarrow> nat \<Rightarrow> ('r, 'g) ISEpiModel \<Rightarrow> error + ('r, 'g) ISEpiModel" where
  "ISEpiAgent_step L i m =
     (case lookup_agent (agents m) i of
        None \<Rightarrow> Inl KeyError
      | Some self \<Rightarrow>
          (case traveler_trial L self m of
             Inl e \<Rightarrow> Inl e
           | Inr (self1, m1) \<Rightarrow>
               (case stage_branch L self1 m1 of
                  Inl e \<Rightarrow> Inl e
                | Inr (self2, m2) \<Rightarrow> Inr (put (self2\<lparr>astep := astep self2 + 1\<rparr>) m2))))"

subsection \<open>The partitioned scheduler\<close>

text \<open>
  A Python \<^verbatim>\<open>dict\<close> as an association list in insertion order: assigning to a key that
  is present keeps its place, a new key goes to the end.
\<close>

fun dict_set :: "('k \<times> 'v) list \<Rightarrow> 'k \<Rightarrow> 'v \<Rightarrow> ('k \<times> 'v) list" where
  "dict_set [] k v = [(k, v)]"
| "dict_set ((k', v') # d) k v =
     (if k' = k then (k, v) # d else (k', v') # dict_set d k v)"

text \<open>\<^verbatim>\<open>range(0, n)\<close>; it is empty for \<open>n \<le> 0\<close>.\<close>

definition py_range :: "int \<Rightarrow> int list" where
  "py_range n = map int [0..<nat n]"

text \<open>
  \<^verbatim>\<open>GrahamActivation\<close>: \<open>stages\<close> is the dict from partition index to list of ids,
  \<open>steps\<close> and \<open>time\<close> are the base scheduler's counters. The base scheduler's
  \<^verbatim>\<open>_agents\<close> is the model's \<open>agents\<close>.
\<close>

record GrahamActivation =
  stages :: "(int \<times> nat list) list"
  partitions :: int
  steps :: nat
  time :: nat

text \<open>\<^verbatim>\<open>GrahamActivation.__init__\<close>, lines 17 to 26.\<close>

definition GrahamActivation_init :: "int \<Rightarrow> GrahamActivation" where
  "GrahamActivation_init P = \<lparr>stages = [], partitions = P, steps = 0, time = 0\<rparr>"

text \<open>Lines 34 and 35: every partition index gets an empty list.\<close>

definition reset_stages :: "int \<Rightarrow> (int \<times> nat list) list \<Rightarrow> (int \<times> nat list) list" where
  "reset_stages P d = fold (\<lambda>p d'. dict_set d' p []) (py_range P) d"

text \<open>
  Lines 37 and 38: each agent's id is appended to the list of its earmark;
  \<^verbatim>\<open>self.stages[agent.earmark]\<close> raises \<^verbatim>\<open>KeyError\<close> for an earmark that is not a key.
\<close>

fun bucket_agents ::
  "(int \<times> nat list) list \<Rightarrow> ISEpiAgent list \<Rightarrow> error + (int \<times> nat list) list" where
  "bucket_agents d [] = Inr d"
| "bucket_agents d (agent # rest) =
     (case map_of d (earmark agent) of
        None \<Rightarrow> Inl KeyError
      | Some ids \<Rightarrow> bucket_agents (dict_set d (earmark agent) (ids @ [unique_id agent])) rest)"

text \<open>
  Lines 43 and 44: the agents of one shuffled list are stepped in turn. \<open>agent_step\<close> is
  the agent's \<^verbatim>\<open>step\<close>, by id. The last argument and result are not program state: they
  record the ids whose \<^verbatim>\<open>step\<close> has been called, in call order.
\<close>

fun run_bucket ::
  "(nat \<Rightarrow> 'w \<Rightarrow> error + 'w) \<Rightarrow> nat list \<Rightarrow> 'w \<Rightarrow> nat list \<Rightarrow> error + ('w \<times> nat list)" where
  "run_bucket agent_step [] w tr = Inr (w, tr)"
| "run_bucket agent_step (i # ids) w tr =
     (case agent_step i w of
        Inl e \<Rightarrow> Inl e
      | Inr w' \<Rightarrow> run_bucket agent_step ids w' (tr @ [i]))"

text \<open>
  Lines 40 to 44: for each key of \<open>stages\<close>, in the dict's order, the list is shuffled
  in place with the model's random stream and its agents are stepped.
\<close>

fun run_stages ::
  "('r, 'g) lib \<Rightarrow> (nat \<Rightarrow> ('r, 'g) ISEpiModel \<Rightarrow> error + ('r, 'g) ISEpiModel) \<Rightarrow> int list
     \<Rightarrow> (int \<times> nat list) list \<Rightarrow> ('r, 'g) ISEpiModel \<Rightarrow> nat list
     \<Rightarrow> error + ((int \<times> nat list) list \<times> ('r, 'g) ISEpiModel \<times> nat list)" where
  "run_stages L agent_step [] d m tr = Inr (d, m, tr)"
| "run_stages L agent_step (k # ks) d m tr =
     (case map_of d k of
        None \<Rightarrow> Inl KeyError
      | Some ids \<Rightarrow>
          (case random_shuffle L ids (random m) of
             (ids', r) \<Rightarrow>
               (case run_bucket agent_step ids' (m\<lparr>random := r\<rparr>) tr of
                  Inl e \<Rightarrow> Inl e
                | Inr (m', tr') \<Rightarrow> run_stages L agent_step ks (dict_set d k ids') m' tr')))"

text \<open>
  \<^verbatim>\<open>GrahamActivation.step\<close>, lines 29 to 47. The result holds the scheduler, the model
  and the call record of this step.
\<close>

definition GrahamActivation_step ::
  "('r, 'g) lib \<Rightarrow> (nat \<Rightarrow> ('r, 'g) ISEpiModel \<Rightarrow> error + ('r, 'g) ISEpiModel)
     \<Rightarrow> GrahamActivation \<Rightarrow> ('r, 'g) ISEpiModel
     \<Rightarrow> error + (GrahamActivation \<times> ('r, 'g) ISEpiModel \<times> nat list)" where
  "GrahamActivation_step L agent_step s m =
     (case bucket_agents (reset_stages (partitions s) (stages s)) (agents m) of
        Inl e \<Rightarrow> Inl e
      | Inr d \<Rightarrow>
          (case run_stages L agent_step (map fst d) d m [] of
             Inl e \<Rightarrow> Inl e
           | Inr (d', m', tr) \<Rightarrow>
               Inr (s\<lparr>stages := d', steps := steps s + 1, time := time s + 1\<rparr>, m', tr)))"

text \<open>
  A run of \<open>n\<close> scheduler steps with the agents' own \<^verbatim>\<open>step\<close>. The result is the stage
  trajectory: the stages of all agents, in registration order, after each step.
\<close>

fun run_schedule ::
  "('r, 'g) lib \<Rightarrow> nat \<Rightarrow> GrahamActivation \<Rightarrow> ('r, 'g) ISEpiModel \<Rightarrow> error + Stage list list" where
  "run_schedule L 0 s m = Inr []"
| "run_schedule L (Suc n) s m =
     (case GrahamActivation_step L (ISEpiAgent_step L) s m of
        Inl e \<Rightarrow> Inl e
      | Inr (s', m', tr) \<Rightarrow>
          (case run_schedule L n s' m' of
             Inl e \<Rightarrow> Inl e
           | Inr traj \<Rightarrow> Inr (map stage (agents m') # traj)))"

subsection \<open>The partitioned strategy as the specification words it\<close>

text \<open>
  Section 4.2 of the specification: the registered agents are grouped by earmark into
  \<open>P\<close> buckets, rebuilt at every step; for each partition index from 0 to \<open>P - 1\<close>, in
  ascending order, the bucket is shuffled and each agent's update is invoked in the
  shuffled order before the next index is taken; then the counters are incremented.
  These definitions follow that wording and not the source: there is no dict and no
  call record. \<open>run_updates\<close> invokes the update of each id of a list once, in list
  order, and stops at the first update that raises.
\<close>

fun run_updates :: "(nat \<Rightarrow> 'w \<Rightarrow> error + 'w) \<Rightarrow> nat list \<Rightarrow> 'w \<Rightarrow> error + 'w" where
  "run_updates agent_step [] w = Inr w"
| "run_updates agent_step (i # ids) w =
     (case agent_step i w of
        Inl e \<Rightarrow> Inl e
      | Inr w' \<Rightarrow> run_updates agent_step ids w')"

definition spec_buckets :: "int \<Rightarrow> ISEpiAgent list \<Rightarrow> nat list list" where
  "spec_buckets P as =
     map (\<lambda>p. map unique_id (filter (\<lambda>a. earmark a = p) as)) (py_range P)"

fun spec_run_partitions ::
  "('r, 'g) lib \<Rightarrow> (nat \<Rightarrow> ('r, 'g) ISEpiModel \<Rightarrow> error + ('r, 'g) ISEpiModel) \<Rightarrow> nat list list
     \<Rightarrow> ('r, 'g) ISEpiModel \<Rightarrow> error + (nat list list \<times> ('r, 'g) ISEpiModel)" where
  "spec_run_partitions L agent_step [] m = Inr ([], m)"
| "spec_run_partitions L agent_step (ids # rest) m =
     (case random_shuffle L ids (random m) of
        (ids', r) \<Rightarrow>
          (case run_updates agent_step ids' (m\<lparr>random := r\<rparr>) of
             Inl e \<Rightarrow> Inl e
           | Inr m1 \<Rightarrow>
               (case spec_run_partitions L agent_step rest m1 of
                  Inl e \<Rightarrow> Inl e
                | Inr (bs, m') \<Rightarrow> Inr (ids' # bs, m'))))"

text \<open>
  One step of the partitioned strategy: the result holds the scheduler (its buckets are
  the shuffled lists of this step, by partition index), the model after all updates and
  the ids in the order in which their update was invoked.
\<close>

definition spec_partitioned_step ::
  "('r, 'g) lib \<Rightarrow> (nat \<Rightarrow> ('r, 'g) ISEpiModel \<Rightarrow> error + ('r, 'g) ISEpiModel)
     \<Rightarrow> GrahamActivation \<Rightarrow> ('r, 'g) ISEpiModel
     \<Rightarrow> error + (GrahamActivation \<times> ('r, 'g) ISEpiModel \<times> nat list)" where
  "spec_partitioned_step L agent_step s m =
     (case spec_run_partitions L agent_step (spec_buckets (partitions s) (agents m)) m of
        Inl e \<Rightarrow> Inl e
      | Inr (bs, m') \<Rightarrow>
          Inr (s\<lparr>stages := zip (py_range (partitions s)) bs, steps := steps s + 1,
                 time := time s + 1\<rparr>, m', concat bs))"

section \<open>Example states\<close>

text \<open>
  Small concrete agents and models on which the properties below are evaluated. All
  agents of \<open>mk_model\<close> stand in the cell \<open>(0, 0)\<close>, in registration order.
\<close>

definition mk_agent :: "nat \<Rightarrow> Stage \<Rightarrow> nat \<Rightarrow> bool \<Rightarrow> ISEpiAgent" where
  "mk_agent i st inc isol =
     \<lparr>unique_id = i, stage = st, incubation_time = inc, dwelling_time = 0, recovery_time = 0,
      prob_contagion = 3/100, mortality_value = 0, severity_value = 0, curr_dwelling = 0,
      curr_incubation = 0, curr_recovery = 0, isolated = isol, isolated_but_inefficient = False,
      earmark = 0, astep = 0, pos = (0, 0)\<rparr>"

definition mk_model :: "ISEpiAgent list \<Rightarrow> 'r \<Rightarrow> 'g \<Rightarrow> ('r, 'g) ISEpiModel" where
  "mk_model as r g =
     \<lparr>agents = as, grid = (\<lambda>p. if p = (0, 0) then map unique_id as else []),
      rate_inbound = 1/2, prob_isolation_effective = 1/2, m_prob_contagion = 3/100,
      avg_dwell = 5, random = r, np_random = g\<rparr>"

text \<open>One susceptible agent; two recovered agents: no agent is infected.\<close>

definition ex_one_susceptible :: "(unit, unit) ISEpiModel" where
  "ex_one_susceptible = mk_model [mk_agent 0 SUSCEPTIBLE 10 False] () ()"

definition ex_two_recovered :: "(unit, unit) ISEpiModel" where
  "ex_two_recovered = mk_model [mk_agent 0 RECOVERED 10 False, mk_agent 1 RECOVERED 12 False] () ()"

text \<open>Three infected agents in one cell with incubation times 10, 12 and 14.\<close>

definition ex_rt :: "(unit, unit) ISEpiModel" where
  "ex_rt = mk_model [mk_agent 0 INFECTED 10 False, mk_agent 1 INFECTED 12 False,
                     mk_agent 2 INFECTED 14 False] () ()"

text \<open>Two susceptible agents in one cell, the second one isolated.\<close>

definition ex_iso :: "(unit, unit) ISEpiModel" where
  "ex_iso = mk_model [mk_agent 0 SUSCEPTIBLE 10 False, mk_agent 1 SUSCEPTIBLE 12 True] () ()"

definition ex_pair :: "(unit, unit) ISEpiModel" where
  "ex_pair = mk_model [mk_agent 0 SUSCEPTIBLE 10 False, mk_agent 1 INFECTED 12 False] () ()"

text \<open>
  A concrete instance of the library operations. The global stream is a list of uniform
  draws from \<open>[0, 1)\<close>, consumed from the front (an exhausted stream gives 0); a
  Bernoulli draw with parameter \<open>p\<close> succeeds when the uniform draw is below \<open>p\<close>, so it
  never succeeds for \<open>p = 0\<close> and always for \<open>p = 1\<close>, and it raises for \<open>p\<close> outside
  \<open>[0, 1]\<close>. A Poisson draw gives 0 and raises for a negative rate, \<open>choice\<close> takes the
  first element and \<open>shuffle\<close> reverses. The grid is a torus of side 50:
  the neighbourhood is the eight Moore neighbours, and a move takes the agent out of its
  old cell (\<^verbatim>\<open>ValueError\<close> when it is not there) and then appends it to the new one.
\<close>

definition ex_lib :: "(unit, real list) lib" where
  "ex_lib =
     \<lparr>bernoulli_rvs = (\<lambda>p g.
         if 0 \<le> p \<and> p \<le> 1
         then Inr (case g of [] \<Rightarrow> (0 < p, []) | u # g' \<Rightarrow> (u < p, g'))
         else Inl ValueError),
      poisson_rvs = (\<lambda>mu g. if 0 \<le> mu then Inr (0, g) else Inl ValueError),
      random_choice = (\<lambda>xs r. (hd xs, r)),
      random_shuffle = (\<lambda>xs r. (rev xs, r)),
      get_neighborhood = (\<lambda>p.
         map (\<lambda>d. ((fst p + fst d) mod 50, (snd p + snd d) mod 50))
           [(- 1, - 1), (0, - 1), (1, - 1), (- 1, 0), (1, 0), (- 1, 1), (0, 1), (1, 1)]),
      move_agent = (\<lambda>uid old new cells.
         if uid \<in> set (cells old)
         then (let cells1 = cells(old := remove1 uid (cells old))
               in Inr (cells1(new := cells1 new @ [uid])))
         else Inl ValueError)\<rparr>"

text \<open>
  Three agents with earmarks 1, 0 and 1: agent 0 is infected and incubating, with the
  severity value that \<^verbatim>\<open>prob_severe = 0.18\<close> and a recovery time of 15 give, and the
  global stream holds a draw above it; agent 1 is recovered with two steps of dwelling
  left; agent 2 is infected and its incubation and recovery time have elapsed.
\<close>

definition ex_sched_model :: "(unit, real list) ISEpiModel" where
  "ex_sched_model =
     mk_model [(mk_agent 0 INFECTED 10 False)\<lparr>earmark := 1, recovery_time := 15,
                                               severity_value := 1/8000\<rparr>,
               (mk_agent 1 RECOVERED 10 False)\<lparr>curr_dwelling := 2\<rparr>,
               (mk_agent 2 INFECTED 2 False)\<lparr>earmark := 1, recovery_time := 3,
                                              severity_value := 1/1600, curr_recovery := 5\<rparr>]
       () [1/2]"

text \<open>Agents with an earmark outside the partitions.\<close>

definition ex_bad_earmark :: "(unit, real list) ISEpiModel" where
  "ex_bad_earmark = mk_model [(mk_agent 0 RECOVERED 10 False)\<lparr>earmark := 5\<rparr>] () []"

definition ex_negative_earmark :: "(unit, real list) ISEpiModel" where
  "ex_negative_earmark =
     mk_model [mk_agent 0 RECOVERED 10 False, (mk_agent 1 RECOVERED 10 False)\<lparr>earmark := - 1\<rparr>] () []"

text \<open>A susceptible agent that shares its cell with an infected one; the traveller trial fails.\<close>

definition ex_contact :: "(unit, real list) ISEpiModel" where
  "ex_contact = mk_model [mk_agent 0 SUSCEPTIBLE 10 False, mk_agent 1 INFECTED 12 False] () [3/4]"

text \<open>
  One susceptible agent with three steps of dwelling left, alone in its cell, with the
  global stream \<open>g\<close>; and such an agent that shares its cell with an infected one, where
  the traveller trial succeeds (the draw 1/4 is below \<open>rate_inbound = 1/2\<close>) and the
  severity trial fails.
\<close>

definition ex_traveler :: "real list \<Rightarrow> (unit, real list) ISEpiModel" where
  "ex_traveler g = mk_model [(mk_agent 0 SUSCEPTIBLE 10 False)\<lparr>curr_dwelling := 3\<rparr>] () g"

definition ex_traveler_contact :: "(unit, real list) ISEpiModel" where
  "ex_traveler_contact =
     mk_model [(mk_agent 0 SUSCEPTIBLE 10 False)\<lparr>curr_dwelling := 3, recovery_time := 15,
                                                  severity_value := 1/8000\<rparr>,
               mk_agent 1 INFECTED 12 False] () [1/4, 1/2]"

text \<open>
  An infected agent that is still incubating, with the severity value that
  \<^verbatim>\<open>prob_severe = 0.18\<close> and a recovery time of 15 give, whose severity trial succeeds:
  the uniform draw 0 is below \<open>1/8000\<close>.
\<close>

definition ex_severe :: "(unit, real list) ISEpiModel" where
  "ex_severe =
     mk_model [(mk_agent 0 INFECTED 10 False)\<lparr>recovery_time := 15, severity_value := 1/8000\<rparr>]
       () [0]"

text \<open>What is read off the result of a step: stage, dwelling counter and position of each agent.\<close>

definition observe ::
  "error + ('r, 'g) ISEpiModel \<Rightarrow> error + (Stage \<times> nat \<times> (int \<times> int)) list" where
  "observe r = map_sum id (\<lambda>m. map (\<lambda>a. (stage a, curr_dwelling a, pos a)) (agents m)) r"

text \<open>
  The average-contacts metric as the specification words it: every live agent counts all
  occupants of its cell but itself, with no further filter.
\<close>

definition spec_contacts :: "('r, 'g) ISEpiModel \<Rightarrow> real" where
  "spec_contacts m =
     real (sum_list (map (\<lambda>a. if stage a = DECEASED \<or> stage a = RECOVERED then 0
                               else length (filter (\<lambda>c. unique_id c \<noteq> unique_id a)
                                        (get_cell_list_contents m (pos a))))
                      (agents m)))
     / real (length (agents m))"

section \<open>Properties\<close>

subsection \<open>Evaluation of the example states\<close>

lemma mk_agent_sel:
  "unique_id (mk_agent i st inc isol) = i"
  "stage (mk_agent i st inc isol) = st"
  "incubation_time (mk_agent i st inc isol) = inc"
  "isolated (mk_agent i st inc isol) = isol"
  "isolated_but_inefficient (mk_agent i st inc isol) = False"
  "earmark (mk_agent i st inc isol) = 0"
  "curr_dwelling (mk_agent i st inc isol) = 0"
  "pos (mk_agent i st inc isol) = (0, 0)"
  "curr_incubation (mk_agent i st inc isol) = 0"
  "curr_recovery (mk_agent i st inc isol) = 0"
  "recovery_time (mk_agent i st inc isol) = 0"
  "dwelling_time (mk_agent i st inc isol) = 0"
  "severity_value (mk_agent i st inc isol) = 0"
  "mortality_value (mk_agent i st inc isol) = 0"
  "prob_contagion (mk_agent i st inc isol) = 3/100"
  "astep (mk_agent i st inc isol) = 0"
  by (simp_all add: mk_agent_def)

lemma mk_model_sel:
  "agents (mk_model as r g) = as"
  "grid (mk_model as r g) p = (if p = (0, 0) then map unique_id as else [])"
  "m_prob_contagion (mk_model as r g) = 3/100"
  "rate_inbound (mk_model as r g) = 1/2"
  "random (mk_model as r g) = r"
  "np_random (mk_model as r g) = g"
  "prob_isolation_effective (mk_model as r g) = 1/2"
  "avg_dwell (mk_model as r g) = 5"
  by (simp_all add: mk_model_def)

subsection \<open>The metric loops in closed form\<close>

lemma count_type_loop_eq:
  "count_type_loop xs st c = c + length (filter (\<lambda>a. stage a = st) xs)"
  by (induction xs arbitrary: c) auto

lemma eff_reprod_loop_eq:
  "eff_reprod_loop xs (i, t) =
     (i + real (length (filter (\<lambda>a. stage a = INFECTED) xs)),
      t + real (sum_list (map incubation_time (filter (\<lambda>a. stage a = INFECTED) xs))))"
  by (induction xs arbitrary: i t) auto

lemma interactants_loop_eq:
  "interactants_loop self cs c =
     c + length (filter (\<lambda>a. unique_id a \<noteq> unique_id self
                             \<and> (\<not> isolated a \<or> isolated_but_inefficient self)) cs)"
  by (induction cs arbitrary: c) auto

lemma compute_contacts_loop_eq:
  "compute_contacts_loop m xs c = c + sum_list (map (interactants m) xs)"
  by (induction xs arbitrary: c) auto

lemma compute_contacts_error:
  "compute_contacts m = Inl e \<Longrightarrow> e = ZeroDivisionError"
  by (auto simp: compute_contacts_def py_truediv_def split: if_splits)

lemma stage_partition:
  "length (filter (\<lambda>a. stage a = SUSCEPTIBLE) xs) + length (filter (\<lambda>a. stage a = INFECTED) xs)
     + length (filter (\<lambda>a. stage a = RECOVERED) xs) + length (filter (\<lambda>a. stage a = DECEASED) xs)
   = length xs"
proof (induction xs)
  case Nil
  show ?case by simp
next
  case (Cons a xs)
  then show ?case by (cases "stage a") simp_all
qed

subsection \<open>The effective reproduction number\<close>

text \<open>
  C1, as the specification states it: with no infected agent the reproduction number is
  an undefined/NaN value instead of a division fault. The code has no guard: for one
  susceptible agent the computation raises \<^verbatim>\<open>ZeroDivisionError\<close>.
\<close>

theorem eff_reprod_guard_counterexample:
  "count_type ex_one_susceptible INFECTED = 0
   \<and> compute_eff_reprod_number ex_one_susceptible = Inl ZeroDivisionError"
  by (simp add: count_type_def compute_eff_reprod_number_def compute_contacts_def
      py_truediv_def interactants_def ex_one_susceptible_def get_cell_list_contents_def
      mk_agent_sel mk_model_sel)

text \<open>
  C1, amended: in every model state in which no agent is infected, computing the
  effective reproduction number raises \<^verbatim>\<open>ZeroDivisionError\<close>; no value is returned.
\<close>

theorem eff_reprod_zero_infected_raises:
  assumes "count_type m INFECTED = 0"
  shows "compute_eff_reprod_number m = Inl ZeroDivisionError"
proof -
  from assms have n: "length (filter (\<lambda>a. stage a = INFECTED) (agents m)) = 0"
    by (simp add: count_type_def count_type_loop_eq)
  have l: "eff_reprod_loop (agents m) (0, 0) = (0, 0)"
    using n by (simp add: eff_reprod_loop_eq)
  show ?thesis
  proof (cases "compute_contacts m")
    case (Inl e)
    then show ?thesis
      using compute_contacts_error[OF Inl] by (simp add: compute_eff_reprod_number_def l)
  next
    case (Inr avg)
    then show ?thesis
      by (simp add: compute_eff_reprod_number_def l py_truediv_def)
  qed
qed

theorem eff_reprod_zero_infected_raises_witness:
  "compute_eff_reprod_number ex_two_recovered = Inl ZeroDivisionError"
proof -
  have "count_type ex_two_recovered INFECTED = 0"
    by (simp add: count_type_def ex_two_recovered_def mk_agent_sel mk_model_sel)
  then show ?thesis by (rule eff_reprod_zero_infected_raises)
qed

text \<open>
  C6: whenever some agent is infected, the effective reproduction number is the model's
  \<open>prob_contagion\<close> times the average contacts times the quotient of the summed incubation
  times of the infected agents by their count. (Floats are read as reals.)
\<close>

theorem eff_reprod_formula:
  assumes "count_type m INFECTED \<noteq> 0"
  shows "\<exists>avg. compute_contacts m = Inr avg \<and>
           compute_eff_reprod_number m =
             Inr (m_prob_contagion m * avg *
                  (real (sum_list (map incubation_time (filter (\<lambda>a. stage a = INFECTED) (agents m))))
                   / real (count_type m INFECTED)))"
proof -
  from assms have n: "length (filter (\<lambda>a. stage a = INFECTED) (agents m)) \<noteq> 0"
    by (simp add: count_type_def count_type_loop_eq)
  then have ne: "agents m \<noteq> []" by auto
  then obtain avg where avg: "compute_contacts m = Inr avg"
    by (auto simp: compute_contacts_def py_truediv_def)
  have "compute_eff_reprod_number m =
             Inr (m_prob_contagion m * avg *
                  (real (sum_list (map incubation_time (filter (\<lambda>a. stage a = INFECTED) (agents m))))
                   / real (count_type m INFECTED)))"
    using n by (simp add: compute_eff_reprod_number_def eff_reprod_loop_eq avg py_truediv_def
        count_type_def count_type_loop_eq)
  with avg show ?thesis by blast
qed

lemma ex_rt_contacts: "compute_contacts ex_rt = Inr 2"
  by (simp add: compute_contacts_def py_truediv_def interactants_def ex_rt_def
      get_cell_list_contents_def mk_agent_sel mk_model_sel)

text \<open>
  The specification's instance: three infected agents with incubation times 10, 12 and
  14, \<open>prob_contagion\<close> 0.03 and average contacts 2 give 0.72.
\<close>

theorem eff_reprod_formula_witness:
  "count_type ex_rt INFECTED = 3 \<and> compute_contacts ex_rt = Inr 2
   \<and> compute_eff_reprod_number ex_rt = Inr (72/100)"
proof -
  have c: "count_type ex_rt INFECTED = 3"
    by (simp add: count_type_def ex_rt_def mk_agent_sel mk_model_sel)
  then have "count_type ex_rt INFECTED \<noteq> 0" by simp
  from eff_reprod_formula[OF this] have "compute_eff_reprod_number ex_rt = Inr (72/100)"
    by (simp add: ex_rt_contacts c) (simp add: ex_rt_def mk_agent_sel mk_model_sel)
  with c ex_rt_contacts show ?thesis by simp
qed

subsection \<open>Stage counts\<close>

text \<open>
  C5: in every model state the four per-stage counts of \<^verbatim>\<open>count_type\<close> add up to the
  number of agents: each agent is counted in exactly one stage.
\<close>

theorem stage_counts_sum_to_population:
  "count_type m SUSCEPTIBLE + count_type m INFECTED + count_type m RECOVERED
     + count_type m DECEASED = length (agents m)"
  by (simp add: count_type_def count_type_loop_eq stage_partition)

subsection \<open>Average contacts\<close>

text \<open>
  C8, as the specification states it: every occupant of the cell but the agent itself is
  counted. In the code an isolated occupant is not counted: with two susceptible agents
  in one cell, one of them isolated, the metric is 1/2 and not 1.
\<close>

theorem contacts_unfiltered_counterexample:
  "compute_contacts ex_iso = Inr (1/2) \<and> spec_contacts ex_iso = 1"
  by (simp add: compute_contacts_def py_truediv_def interactants_def ex_iso_def spec_contacts_def
      get_cell_list_contents_def mk_agent_sel mk_model_sel)

text \<open>
  C8, amended: for a population that is not empty, the average-contacts metric is the
  sum, over the agents that are neither deceased nor recovered, of the number of
  occupants of the agent's cell that are not the agent itself and that are not isolated
  (or any occupant but itself, when the counting agent is flagged
  \<open>isolated_but_inefficient\<close>), divided by the population size.
\<close>

theorem compute_contacts_effective:
  assumes "agents m \<noteq> []"
  shows "compute_contacts m =
     Inr (real (sum_list (map (\<lambda>a. if stage a = DECEASED \<or> stage a = RECOVERED then 0
                               else length (filter (\<lambda>c. unique_id c \<noteq> unique_id a
                                             \<and> (\<not> isolated c \<or> isolated_but_inefficient a))
                                        (get_cell_list_contents m (pos a))))
                      (agents m)))
     / real (length (agents m)))"
proof -
  have "interactants m = (\<lambda>a. if stage a = DECEASED \<or> stage a = RECOVERED then 0
                               else length (filter (\<lambda>c. unique_id c \<noteq> unique_id a
                                             \<and> (\<not> isolated c \<or> isolated_but_inefficient a))
                                        (get_cell_list_contents m (pos a))))"
    by (auto simp: interactants_def interactants_loop_eq fun_eq_iff)
  then show ?thesis using assms
    by (simp add: compute_contacts_def compute_contacts_loop_eq py_truediv_def)
qed

theorem compute_contacts_effective_witness:
  "compute_contacts ex_pair = Inr 1"
proof -
  have "agents ex_pair \<noteq> []" by (simp add: ex_pair_def mk_model_sel)
  from compute_contacts_effective[OF this] show ?thesis
    by (simp add: ex_pair_def get_cell_list_contents_def mk_agent_sel mk_model_sel)
qed

subsection \<open>The partitioned scheduler\<close>

lemma py_range_set: "x \<in> set (py_range P) \<longleftrightarrow> 0 \<le> x \<and> x < P"
proof
  assume "x \<in> set (py_range P)"
  then obtain n where "x = int n" "n < nat P" by (auto simp: py_range_def)
  then show "0 \<le> x \<and> x < P" by linarith
next
  assume a: "0 \<le> x \<and> x < P"
  then have "nat x \<in> set [0..<nat P]" by auto
  then have "int (nat x) \<in> int ` set [0..<nat P]" by (rule imageI)
  then show "x \<in> set (py_range P)" using a by (simp add: py_range_def)
qed

lemma py_range_distinct: "distinct (py_range P)"
  by (simp add: py_range_def distinct_map inj_on_def)

lemma tab_cong:
  "(\<And>k. k \<in> set ks \<Longrightarrow> f k = g k) \<Longrightarrow> map (\<lambda>p. (p, f p)) ks = map (\<lambda>p. (p, g p)) ks"
  by (induction ks) auto

lemma map_of_tab:
  "map_of (map (\<lambda>p. (p, f p)) ks) k = (if k \<in> set ks then Some (f k) else None)"
  by (induction ks) auto

lemma dict_set_tab_in:
  assumes "distinct ks" "k \<in> set ks"
  shows "dict_set (map (\<lambda>p. (p, f p)) ks) k v = map (\<lambda>p. (p, (f(k := v)) p)) ks"
  using assms
proof (induction ks)
  case Nil
  then show ?case by simp
next
  case (Cons a ks)
  show ?case
  proof (cases "a = k")
    case True
    then have "k \<notin> set ks" using Cons.prems by simp
    then have "map (\<lambda>p. (p, f p)) ks = map (\<lambda>p. (p, (f(k := v)) p)) ks"
      by (intro tab_cong) auto
    then show ?thesis using True by simp
  next
    case False
    then show ?thesis using Cons by simp
  qed
qed

lemma dict_set_tab_notin:
  assumes "k \<notin> set ks"
  shows "dict_set (map (\<lambda>p. (p, f p)) ks) k v = map (\<lambda>p. (p, (f(k := v)) p)) (ks @ [k])"
  using assms by (induction ks) auto

lemma reset_fresh:
  "distinct (qs @ ps) \<Longrightarrow>
   fold (\<lambda>p d'. dict_set d' p []) ps (map (\<lambda>p. (p, f p)) qs)
     = map (\<lambda>p. (p, if p \<in> set ps then [] else f p)) (qs @ ps)"
proof (induction ps arbitrary: qs f)
  case Nil
  show ?case by simp
next
  case (Cons p ps)
  have "p \<notin> set qs" using Cons.prems by auto
  then have 1: "dict_set (map (\<lambda>p. (p, f p)) qs) p [] = map (\<lambda>q. (q, (f(p := [])) q)) (qs @ [p])"
    by (rule dict_set_tab_notin)
  have 2: "distinct ((qs @ [p]) @ ps)" using Cons.prems by auto
  have "fold (\<lambda>p d'. dict_set d' p []) (p # ps) (map (\<lambda>p. (p, f p)) qs)
        = fold (\<lambda>p d'. dict_set d' p []) ps (map (\<lambda>q. (q, (f(p := [])) q)) (qs @ [p]))"
    using 1 by simp
  also have "\<dots> = map (\<lambda>q. (q, if q \<in> set ps then [] else (f(p := [])) q)) ((qs @ [p]) @ ps)"
    using Cons.IH[OF 2] .
  also have "\<dots> = map (\<lambda>q. (q, if q \<in> set (p # ps) then [] else f q)) (qs @ p # ps)"
    by simp
  finally show ?case .
qed

lemma reset_again:
  "distinct qs \<Longrightarrow> set ps \<subseteq> set qs \<Longrightarrow>
   fold (\<lambda>p d'. dict_set d' p []) ps (map (\<lambda>p. (p, f p)) qs)
     = map (\<lambda>p. (p, if p \<in> set ps then [] else f p)) qs"
proof (induction ps arbitrary: f)
  case Nil
  show ?case by simp
next
  case (Cons p ps)
  have "p \<in> set qs" using Cons.prems by auto
  with Cons.prems have 1: "dict_set (map (\<lambda>p. (p, f p)) qs) p [] = map (\<lambda>q. (q, (f(p := [])) q)) qs"
    by (intro dict_set_tab_in)
  have "fold (\<lambda>p d'. dict_set d' p []) (p # ps) (map (\<lambda>p. (p, f p)) qs)
        = fold (\<lambda>p d'. dict_set d' p []) ps (map (\<lambda>q. (q, (f(p := [])) q)) qs)"
    using 1 by simp
  also have "\<dots> = map (\<lambda>q. (q, if q \<in> set ps then [] else (f(p := [])) q)) qs"
    using Cons.prems by (intro Cons.IH) auto
  also have "\<dots> = map (\<lambda>q. (q, if q \<in> set (p # ps) then [] else f q)) qs"
    by (intro tab_cong) auto
  finally show ?case .
qed

lemma dict_as_tab:
  assumes "distinct (map fst d)"
  shows "d = map (\<lambda>k. (k, the (map_of d k))) (map fst d)"
proof -
  have "map (\<lambda>k. (k, the (map_of d k))) (map fst d)
        = map (\<lambda>x. (fst x, the (map_of d (fst x)))) d"
    by (simp add: comp_def)
  also have "\<dots> = map (\<lambda>x. x) d"
  proof (rule map_cong[OF refl])
    fix x assume "x \<in> set d"
    then have "(fst x, snd x) \<in> set d" by simp
    with assms have "map_of d (fst x) = Some (snd x)" by (rule map_of_is_SomeI)
    then show "(fst x, the (map_of d (fst x))) = x" by simp
  qed
  finally show ?thesis by simp
qed

lemma reset_stages_eq:
  assumes "map fst d = [] \<or> map fst d = py_range P"
  shows "reset_stages P d = map (\<lambda>p. (p, [])) (py_range P)"
  using assms
proof
  assume "map fst d = []"
  then have "d = map (\<lambda>p. (p, undefined p)) []" by simp
  then have "reset_stages P d
      = map (\<lambda>p. (p, if p \<in> set (py_range P) then [] else undefined p)) ([] @ py_range P)"
    unfolding reset_stages_def using reset_fresh[of "[]" "py_range P" undefined]
    by (simp add: py_range_distinct)
  also have "\<dots> = map (\<lambda>p. (p, [])) (py_range P)" by simp
  finally show ?thesis .
next
  assume k: "map fst d = py_range P"
  then have dd: "distinct (map fst d)" by (simp add: py_range_distinct)
  let ?f = "\<lambda>k. the (map_of d k)"
  have "d = map (\<lambda>k. (k, ?f k)) (py_range P)" using dict_as_tab[OF dd] k by simp
  then have "reset_stages P d
      = fold (\<lambda>p d'. dict_set d' p []) (py_range P) (map (\<lambda>k. (k, ?f k)) (py_range P))"
    by (simp add: reset_stages_def)
  also have "\<dots> = map (\<lambda>p. (p, if p \<in> set (py_range P) then [] else ?f p)) (py_range P)"
    by (intro reset_again) (auto simp: py_range_distinct)
  also have "\<dots> = map (\<lambda>p. (p, [])) (py_range P)" by (intro tab_cong) auto
  finally show ?thesis .
qed

lemma bucket_agents_ok:
  assumes "distinct ks" "\<forall>a\<in>set as. earmark a \<in> set ks"
  shows "bucket_agents (map (\<lambda>p. (p, f p)) ks) as
           = Inr (map (\<lambda>p. (p, f p @ map unique_id (filter (\<lambda>a. earmark a = p) as))) ks)"
  using assms
proof (induction as arbitrary: f)
  case Nil
  show ?case by simp
next
  case (Cons a as)
  let ?e = "earmark a"
  let ?f' = "f(?e := f ?e @ [unique_id a])"
  have e: "?e \<in> set ks" using Cons.prems by simp
  have 1: "map_of (map (\<lambda>p. (p, f p)) ks) ?e = Some (f ?e)" using e by (simp add: map_of_tab)
  have 2: "dict_set (map (\<lambda>p. (p, f p)) ks) ?e (f ?e @ [unique_id a]) = map (\<lambda>p. (p, ?f' p)) ks"
    using Cons.prems(1) e by (rule dict_set_tab_in)
  have "bucket_agents (map (\<lambda>p. (p, f p)) ks) (a # as) = bucket_agents (map (\<lambda>p. (p, ?f' p)) ks) as"
    using 1 2 by simp
  also have "\<dots> = Inr (map (\<lambda>p. (p, ?f' p @ map unique_id (filter (\<lambda>a. earmark a = p) as))) ks)"
    using Cons.prems by (intro Cons.IH) auto
  also have "map (\<lambda>p. (p, ?f' p @ map unique_id (filter (\<lambda>a. earmark a = p) as))) ks
      = map (\<lambda>p. (p, f p @ map unique_id (filter (\<lambda>a. earmark a = p) (a # as)))) ks"
    by (intro tab_cong) auto
  finally show ?case .
qed

lemma bucket_agents_bad:
  assumes "\<exists>a\<in>set as. earmark a \<notin> set ks" "distinct ks"
  shows "bucket_agents (map (\<lambda>p. (p, f p)) ks) as = Inl KeyError"
  using assms
proof (induction as arbitrary: f)
  case Nil
  then show ?case by simp
next
  case (Cons a as)
  show ?case
  proof (cases "earmark a \<in> set ks")
    case False
    then show ?thesis by (simp add: map_of_tab)
  next
    case True
    let ?e = "earmark a"
    let ?f' = "f(?e := f ?e @ [unique_id a])"
    have 1: "map_of (map (\<lambda>p. (p, f p)) ks) ?e = Some (f ?e)" using True by (simp add: map_of_tab)
    have 2: "dict_set (map (\<lambda>p. (p, f p)) ks) ?e (f ?e @ [unique_id a]) = map (\<lambda>p. (p, ?f' p)) ks"
      using Cons.prems(2) True by (rule dict_set_tab_in)
    have "\<exists>a\<in>set as. earmark a \<notin> set ks" using Cons.prems(1) True by auto
    then have "bucket_agents (map (\<lambda>p. (p, ?f' p)) ks) as = Inl KeyError"
      using Cons.prems(2) by (rule Cons.IH)
    then show ?thesis using 1 2 by simp
  qed
qed

lemma run_bucket_updates:
  "run_bucket agent_step ids w tr =
     (case run_updates agent_step ids w of
        Inl e \<Rightarrow> Inl e
      | Inr w' \<Rightarrow> Inr (w', tr @ ids))"
  by (induction ids arbitrary: w tr) (simp_all split: sum.splits)

lemma run_stages_refines:
  assumes dk: "distinct ks"
  shows "set ks' \<subseteq> set ks \<Longrightarrow> distinct ks' \<Longrightarrow>
     (case spec_run_partitions L agent_step (map f ks') m of
        Inl e \<Rightarrow> run_stages L agent_step ks' (map (\<lambda>p. (p, f p)) ks) m tr = Inl e
      | Inr (bs, m') \<Rightarrow>
          (\<exists>f'. run_stages L agent_step ks' (map (\<lambda>p. (p, f p)) ks) m tr
                   = Inr (map (\<lambda>p. (p, f' p)) ks, m', tr @ concat bs)
               \<and> list_all2 (\<lambda>b k. f' k = b) bs ks'
               \<and> (\<forall>k. k \<notin> set ks' \<longrightarrow> f' k = f k)))"
proof (induction ks' arbitrary: f m tr)
  case Nil
  have "run_stages L agent_step [] (map (\<lambda>p. (p, f p)) ks) m tr
          = Inr (map (\<lambda>p. (p, f p)) ks, m, tr @ concat [])" by simp
  then have "\<exists>f'. run_stages L agent_step [] (map (\<lambda>p. (p, f p)) ks) m tr
                   = Inr (map (\<lambda>p. (p, f' p)) ks, m, tr @ concat [])
               \<and> list_all2 (\<lambda>b k. f' k = b) [] []
               \<and> (\<forall>k. k \<notin> set [] \<longrightarrow> f' k = f k)"
    by (intro exI[of _ f]) simp
  then show ?case by simp
next
  case (Cons k ks')
  have kin: "k \<in> set ks" and sub: "set ks' \<subseteq> set ks" and kn: "k \<notin> set ks'" and d': "distinct ks'"
    using Cons.prems by auto
  obtain ids' r where sh: "random_shuffle L (f k) (random m) = (ids', r)"
    by (cases "random_shuffle L (f k) (random m)")
  let ?f1 = "f(k := ids')"
  have ds: "dict_set (map (\<lambda>p. (p, f p)) ks) k ids' = map (\<lambda>p. (p, ?f1 p)) ks"
    using dk kin by (rule dict_set_tab_in)
  have mf: "map ?f1 ks' = map f ks'" using kn by simp
  show ?case
  proof (cases "run_updates agent_step ids' (m\<lparr>random := r\<rparr>)")
    case (Inl e)
    then have "run_stages L agent_step (k # ks') (map (\<lambda>p. (p, f p)) ks) m tr = Inl e"
      using kin sh by (simp add: map_of_tab run_bucket_updates)
    moreover have "spec_run_partitions L agent_step (map f (k # ks')) m = Inl e"
      using sh Inl by simp
    ultimately show ?thesis by simp
  next
    case (Inr m1)
    have rb: "run_bucket agent_step ids' (m\<lparr>random := r\<rparr>) tr = Inr (m1, tr @ ids')"
      using Inr by (simp add: run_bucket_updates)
    have st: "run_stages L agent_step (k # ks') (map (\<lambda>p. (p, f p)) ks) m tr
                = run_stages L agent_step ks' (map (\<lambda>p. (p, ?f1 p)) ks) m1 (tr @ ids')"
      using kin sh rb ds by (simp add: map_of_tab)
    note IH = Cons.IH[OF sub d', of ?f1 m1 "tr @ ids'", unfolded mf]
    show ?thesis
    proof (cases "spec_run_partitions L agent_step (map f ks') m1")
      case failed: (Inl e)
      then have "run_stages L agent_step ks' (map (\<lambda>p. (p, ?f1 p)) ks) m1 (tr @ ids') = Inl e"
        using IH by simp
      moreover have "spec_run_partitions L agent_step (map f (k # ks')) m = Inl e"
        using sh Inr failed by simp
      ultimately show ?thesis using st by simp
    next
      case returned: (Inr res)
      obtain bs m' where res: "res = (bs, m')" by (cases res)
      from IH returned res obtain f' where
        rs: "run_stages L agent_step ks' (map (\<lambda>p. (p, ?f1 p)) ks) m1 (tr @ ids')
               = Inr (map (\<lambda>p. (p, f' p)) ks, m', (tr @ ids') @ concat bs)"
        and la: "list_all2 (\<lambda>b k'. f' k' = b) bs ks'"
        and rest: "\<forall>k'. k' \<notin> set ks' \<longrightarrow> f' k' = ?f1 k'" by auto
      have sp: "spec_run_partitions L agent_step (map f (k # ks')) m = Inr (ids' # bs, m')"
        using sh Inr returned res by simp
      have fk: "f' k = ids'" using rest kn by simp
      have 1: "run_stages L agent_step (k # ks') (map (\<lambda>p. (p, f p)) ks) m tr
                 = Inr (map (\<lambda>p. (p, f' p)) ks, m', tr @ concat (ids' # bs))"
        using st rs by simp
      have 2: "list_all2 (\<lambda>b k'. f' k' = b) (ids' # bs) (k # ks')" using la fk by simp
      have 3: "\<forall>k'. k' \<notin> set (k # ks') \<longrightarrow> f' k' = f k'" using rest by simp
      from 1 2 3 have "\<exists>f'. run_stages L agent_step (k # ks') (map (\<lambda>p. (p, f p)) ks) m tr
                   = Inr (map (\<lambda>p. (p, f' p)) ks, m', tr @ concat (ids' # bs))
               \<and> list_all2 (\<lambda>b k'. f' k' = b) (ids' # bs) (k # ks')
               \<and> (\<forall>k'. k' \<notin> set (k # ks') \<longrightarrow> f' k' = f k')" by blast
      then show ?thesis using sp by simp
    qed
  qed
qed

lemma tab_zip:
  "list_all2 (\<lambda>b k. f' k = b) bs ks \<Longrightarrow> map (\<lambda>p. (p, f' p)) ks = zip ks bs"
  by (induction rule: list_all2_induct) auto

lemma spec_run_partitions_perm:
  assumes perm: "\<forall>xs r. mset (fst (random_shuffle L xs r)) = mset xs"
  shows "spec_run_partitions L agent_step bks m = Inr (bs, m') \<Longrightarrow>
         list_all2 (\<lambda>b ids. mset b = mset ids) bs bks"
proof (induction bks arbitrary: m bs m')
  case Nil
  then show ?case by simp
next
  case (Cons ids bks)
  obtain ids' r where sh: "random_shuffle L ids (random m) = (ids', r)"
    by (cases "random_shuffle L ids (random m)")
  have ms: "mset ids' = mset ids" using perm sh by (metis fst_conv)
  from Cons.prems sh obtain m1 bs1 where
    u: "run_updates agent_step ids' (m\<lparr>random := r\<rparr>) = Inr m1"
    and s: "spec_run_partitions L agent_step bks m1 = Inr (bs1, m')"
    and b: "bs = ids' # bs1"
    by (auto split: sum.splits)
  from Cons.IH[OF s] ms b show ?case by simp
qed

lemma concat_buckets:
  "list_all2 (\<lambda>b k. mset b = G k) bs ks \<Longrightarrow> mset (concat bs) = sum_list (map G ks)"
  by (induction rule: list_all2_induct) auto

lemma sum_list_bump:
  "distinct ks \<Longrightarrow> e \<in> set ks \<Longrightarrow>
   sum_list (map (\<lambda>k. if e = k then add_mset x (M k) else M k) ks)
     = add_mset x (sum_list (map M ks))"
proof (induction ks)
  case Nil
  then show ?case by simp
next
  case (Cons k ks)
  show ?case
  proof (cases "e = k")
    case True
    then have "e \<notin> set ks" using Cons.prems by simp
    then have "sum_list (map (\<lambda>k. if e = k then add_mset x (M k) else M k) ks)
        = sum_list (map M ks)"
      by (intro arg_cong[where f = sum_list] map_cong) auto
    then show ?thesis using True by simp
  next
    case False
    then show ?thesis using Cons by simp
  qed
qed

lemma partition_mset:
  "distinct ks \<Longrightarrow> \<forall>a\<in>set as. earmark a \<in> set ks \<Longrightarrow>
   sum_list (map (\<lambda>k. mset (map unique_id (filter (\<lambda>a. earmark a = k) as))) ks)
     = mset (map unique_id as)"
proof (induction as)
  case Nil
  show ?case by (induction ks) auto
next
  case (Cons a as)
  have "(\<lambda>k. mset (map unique_id (filter (\<lambda>a. earmark a = k) (a # as))))
        = (\<lambda>k. if earmark a = k
                then add_mset (unique_id a) (mset (map unique_id (filter (\<lambda>a. earmark a = k) as)))
                else mset (map unique_id (filter (\<lambda>a. earmark a = k) as)))"
    by (rule ext) simp
  then have "sum_list (map (\<lambda>k. mset (map unique_id (filter (\<lambda>a. earmark a = k) (a # as)))) ks)
      = add_mset (unique_id a)
          (sum_list (map (\<lambda>k. mset (map unique_id (filter (\<lambda>a. earmark a = k) as))) ks))"
    using Cons.prems by (simp add: sum_list_bump)
  then show ?case using Cons by simp
qed

lemma graham_step_refines:
  assumes keys: "map fst (stages s) = [] \<or> map fst (stages s) = py_range (partitions s)"
      and inrange: "\<forall>a\<in>set (agents m). 0 \<le> earmark a \<and> earmark a < partitions s"
  shows "GrahamActivation_step L agent_step s m = spec_partitioned_step L agent_step s m"
proof -
  let ?R = "py_range (partitions s)"
  let ?g = "\<lambda>p. map unique_id (filter (\<lambda>a. earmark a = p) (agents m))"
  have dR: "distinct ?R" by (rule py_range_distinct)
  have inR: "\<forall>a\<in>set (agents m). earmark a \<in> set ?R" using inrange by (simp add: py_range_set)
  have r0: "reset_stages (partitions s) (stages s) = map (\<lambda>p. (p, [])) ?R"
    using keys by (rule reset_stages_eq)
  have b0: "bucket_agents (map (\<lambda>p. (p, [])) ?R) (agents m) = Inr (map (\<lambda>p. (p, ?g p)) ?R)"
    using bucket_agents_ok[OF dR inR, of "\<lambda>p. []"] by simp
  have kk: "map fst (map (\<lambda>p. (p, ?g p)) ?R) = ?R" by (simp add: comp_def)
  have sb: "spec_buckets (partitions s) (agents m) = map ?g ?R" by (simp add: spec_buckets_def)
  note rf = run_stages_refines[OF dR, of ?R L agent_step ?g m "[]"]
  show ?thesis
  proof (cases "spec_run_partitions L agent_step (map ?g ?R) m")
    case (Inl e)
    then have "run_stages L agent_step ?R (map (\<lambda>p. (p, ?g p)) ?R) m [] = Inl e"
      using rf dR by simp
    then show ?thesis
      unfolding GrahamActivation_step_def spec_partitioned_step_def r0 b0 sb using Inl kk by simp
  next
    case (Inr res)
    obtain bs m' where res: "res = (bs, m')" by (cases res)
    from rf dR Inr res obtain f' where
      rs: "run_stages L agent_step ?R (map (\<lambda>p. (p, ?g p)) ?R) m []
             = Inr (map (\<lambda>p. (p, f' p)) ?R, m', [] @ concat bs)"
      and la: "list_all2 (\<lambda>b k. f' k = b) bs ?R" by auto
    have z: "map (\<lambda>p. (p, f' p)) ?R = zip ?R bs" using la by (rule tab_zip)
    show ?thesis
      unfolding GrahamActivation_step_def spec_partitioned_step_def r0 b0 sb
      using Inr res rs kk z by simp
  qed
qed

text \<open>
  C2: in a scheduler whose \<open>stages\<close> dict is empty (fresh) or has the keys left by an
  earlier step, with every earmark inside \<open>[0, partitions)\<close>, one \<^verbatim>\<open>step()\<close> of the code
  is the partitioned strategy of the specification, for every agent update: it returns
  the same scheduler, the same model and the same order of calls, or raises the same
  exception (the one of the first update that raises). When the step returns and the
  shuffle permutes, the updates invoked are the concatenation of one list per partition
  index in ascending order, the list of index \<open>p\<close> holding exactly the agents with
  earmark \<open>p\<close>: every registered agent is updated exactly once and all of partition \<open>p\<close>
  before any of partition \<open>p + 1\<close>. The dict after the step holds these lists and nothing
  from earlier steps, and both counters are incremented.
\<close>

theorem graham_step_partition_order:
  assumes keys: "map fst (stages s) = [] \<or> map fst (stages s) = py_range (partitions s)"
      and inrange: "\<forall>a\<in>set (agents m). 0 \<le> earmark a \<and> earmark a < partitions s"
      and perm: "\<forall>xs r. mset (fst (random_shuffle L xs r)) = mset xs"
  shows "GrahamActivation_step L agent_step s m = spec_partitioned_step L agent_step s m
       \<and> (\<forall>s' m' tr. GrahamActivation_step L agent_step s m = Inr (s', m', tr) \<longrightarrow>
            (\<exists>bs. tr = concat bs
               \<and> spec_run_partitions L agent_step (spec_buckets (partitions s) (agents m)) m
                   = Inr (bs, m')
               \<and> list_all2 (\<lambda>b p. mset b = mset (map unique_id
                                                    (filter (\<lambda>a. earmark a = p) (agents m))))
                     bs (py_range (partitions s))
               \<and> mset tr = mset (map unique_id (agents m))
               \<and> stages s' = zip (py_range (partitions s)) bs
               \<and> steps s' = steps s + 1 \<and> time s' = time s + 1
               \<and> partitions s' = partitions s))"
proof (intro conjI allI impI)
  show eq: "GrahamActivation_step L agent_step s m = spec_partitioned_step L agent_step s m"
    using keys inrange by (rule graham_step_refines)
  fix s' m' tr
  assume ret: "GrahamActivation_step L agent_step s m = Inr (s', m', tr)"
  let ?R = "py_range (partitions s)"
  let ?g = "\<lambda>p. map unique_id (filter (\<lambda>a. earmark a = p) (agents m))"
  have dR: "distinct ?R" by (rule py_range_distinct)
  have inR: "\<forall>a\<in>set (agents m). earmark a \<in> set ?R" using inrange by (simp add: py_range_set)
  from ret eq have "spec_partitioned_step L agent_step s m = Inr (s', m', tr)" by simp
  then obtain bs where
    sp: "spec_run_partitions L agent_step (spec_buckets (partitions s) (agents m)) m = Inr (bs, m')"
    and s': "s' = s\<lparr>stages := zip ?R bs, steps := steps s + 1, time := time s + 1\<rparr>"
    and tr: "tr = concat bs"
    by (auto simp: spec_partitioned_step_def split: sum.splits)
  have "list_all2 (\<lambda>b ids. mset b = mset ids) bs (map ?g ?R)"
    using spec_run_partitions_perm[OF perm sp] by (simp add: spec_buckets_def)
  then have la: "list_all2 (\<lambda>b p. mset b = mset (?g p)) bs ?R" by (simp add: list_all2_map2)
  have all: "mset tr = mset (map unique_id (agents m))"
    using concat_buckets[OF la] partition_mset[OF dR inR] tr by simp
  show "\<exists>bs. tr = concat bs
               \<and> spec_run_partitions L agent_step (spec_buckets (partitions s) (agents m)) m
                   = Inr (bs, m')
               \<and> list_all2 (\<lambda>b p. mset b = mset (map unique_id
                                                    (filter (\<lambda>a. earmark a = p) (agents m))))
                     bs (py_range (partitions s))
               \<and> mset tr = mset (map unique_id (agents m))
               \<and> stages s' = zip (py_range (partitions s)) bs
               \<and> steps s' = steps s + 1 \<and> time s' = time s + 1
               \<and> partitions s' = partitions s"
    using tr sp la all s' by (intro exI[of _ bs]) simp
qed

lemma py_range_2: "py_range 2 = [0, 1]"
  by code_simp

lemma ex_lib_sel:
  "bernoulli_rvs ex_lib p g =
     (if 0 \<le> p \<and> p \<le> 1
      then Inr (case g of [] \<Rightarrow> (0 < p, []) | u # g' \<Rightarrow> (u < p, g'))
      else Inl ValueError)"
  "poisson_rvs ex_lib mu g = (if 0 \<le> mu then Inr (0, g) else Inl ValueError)"
  "random_shuffle ex_lib xs r = (rev xs, r)"
  by (simp_all add: ex_lib_def)

lemma graham_witness_eval:
  "\<exists>s' m'. spec_partitioned_step ex_lib (ISEpiAgent_step ex_lib) (GrahamActivation_init 2)
              ex_sched_model = Inr (s', m', [1, 2, 0])
     \<and> s' = \<lparr>stages = [(0, [1]), (1, [2, 0])], partitions = 2, steps = 1, time = 1\<rparr>
     \<and> map (\<lambda>a. (unique_id a, stage a, astep a, curr_recovery a, curr_dwelling a)) (agents m')
         = [(0, INFECTED, 1, 1, 0), (1, RECOVERED, 1, 0, 1), (2, RECOVERED, 1, 5, 0)]"
  by (simp add: spec_partitioned_step_def spec_buckets_def py_range_2 GrahamActivation_init_def
      ISEpiAgent_step_def traveler_trial_def stage_branch_def infected_branch_def
      recovered_branch_def ISEpiAgent_move_def put_def Let_def
      ex_sched_model_def mk_model_sel mk_agent_sel ex_lib_sel)

text \<open>
  The agents' own \<^verbatim>\<open>step\<close> on three agents with earmarks 1, 0 and 1, in a fresh
  scheduler of two partitions: agent 1 is updated first, then agents 2 and 0 (the
  shuffle reverses); each agent's \<open>astep\<close> has gone from 0 to 1.
\<close>

theorem graham_step_partition_order_witness:
  "\<exists>s' m'. GrahamActivation_step ex_lib (ISEpiAgent_step ex_lib) (GrahamActivation_init 2)
              ex_sched_model = Inr (s', m', [1, 2, 0])
     \<and> s' = \<lparr>stages = [(0, [1]), (1, [2, 0])], partitions = 2, steps = 1, time = 1\<rparr>
     \<and> map (\<lambda>a. (unique_id a, stage a, astep a, curr_recovery a, curr_dwelling a)) (agents m')
         = [(0, INFECTED, 1, 1, 0), (1, RECOVERED, 1, 0, 1), (2, RECOVERED, 1, 5, 0)]"
proof -
  have h1: "map fst (stages (GrahamActivation_init 2)) = []
            \<or> map fst (stages (GrahamActivation_init 2)) = py_range (partitions (GrahamActivation_init 2))"
    by (simp add: GrahamActivation_init_def)
  have h2: "\<forall>a\<in>set (agents ex_sched_model).
              0 \<le> earmark a \<and> earmark a < partitions (GrahamActivation_init 2)"
    by (simp add: ex_sched_model_def mk_model_sel mk_agent_sel GrahamActivation_init_def)
  have h3: "\<forall>xs r. mset (fst (random_shuffle ex_lib xs r)) = mset xs"
    by (simp add: ex_lib_sel)
  from graham_step_partition_order[OF h1 h2 h3, of "ISEpiAgent_step ex_lib"]
  have "GrahamActivation_step ex_lib (ISEpiAgent_step ex_lib) (GrahamActivation_init 2) ex_sched_model
          = spec_partitioned_step ex_lib (ISEpiAgent_step ex_lib) (GrahamActivation_init 2)
              ex_sched_model" by simp
  then show ?thesis using graham_witness_eval by simp
qed

text \<open>
  C10, as the specification states it: an earmark outside \<open>[0, P)\<close> fails when it is
  assigned, not in \<^verbatim>\<open>step()\<close>. In the code the agent carries earmark 5 into a scheduler
  of two partitions and it is \<^verbatim>\<open>step()\<close> that raises \<^verbatim>\<open>KeyError\<close>.
\<close>

theorem graham_step_bad_earmark_counterexample:
  "earmark (hd (agents ex_bad_earmark)) = 5
   \<and> GrahamActivation_step ex_lib (ISEpiAgent_step ex_lib) (GrahamActivation_init 2) ex_bad_earmark
       = Inl KeyError"
  by (simp add: GrahamActivation_step_def reset_stages_def py_range_2 GrahamActivation_init_def
      ex_bad_earmark_def mk_model_sel mk_agent_sel)

text \<open>
  C10, amended: an earmark outside \<open>[0, P)\<close> is not rejected when it is assigned; the
  failure is the \<^verbatim>\<open>KeyError\<close> of \<^verbatim>\<open>step()\<close>, raised while the agents are put into
  their partitions and before any agent is updated.
\<close>

theorem graham_step_bad_earmark_raises:
  assumes keys: "map fst (stages s) = [] \<or> map fst (stages s) = py_range (partitions s)"
      and bad: "\<exists>a\<in>set (agents m). earmark a < 0 \<or> partitions s \<le> earmark a"
  shows "GrahamActivation_step L agent_step s m = Inl KeyError"
proof -
  let ?R = "py_range (partitions s)"
  have r0: "reset_stages (partitions s) (stages s) = map (\<lambda>p. (p, [])) ?R"
    using keys by (rule reset_stages_eq)
  from bad obtain a where a: "a \<in> set (agents m)" "earmark a < 0 \<or> partitions s \<le> earmark a"
    by blast
  then have "earmark a \<notin> set ?R" by (auto simp: py_range_set)
  with a have "\<exists>a\<in>set (agents m). earmark a \<notin> set ?R" by blast
  then have "bucket_agents (map (\<lambda>p. (p, [])) ?R) (agents m) = Inl KeyError"
    using py_range_distinct by (rule bucket_agents_bad)
  then show ?thesis by (simp add: GrahamActivation_step_def r0)
qed

theorem graham_step_bad_earmark_raises_witness:
  "GrahamActivation_step ex_lib (ISEpiAgent_step ex_lib) (GrahamActivation_init 3) ex_negative_earmark
     = Inl KeyError"
proof -
  have h1: "map fst (stages (GrahamActivation_init 3)) = []
            \<or> map fst (stages (GrahamActivation_init 3)) = py_range (partitions (GrahamActivation_init 3))"
    by (simp add: GrahamActivation_init_def)
  have h2: "\<exists>a\<in>set (agents ex_negative_earmark).
              earmark a < 0 \<or> partitions (GrahamActivation_init 3) \<le> earmark a"
    by (simp add: ex_negative_earmark_def mk_model_sel mk_agent_sel GrahamActivation_init_def)
  show ?thesis by (rule graham_step_bad_earmark_raises[OF h1 h2])
qed

subsection \<open>The agent's step\<close>

lemma is_contagious_raises: "is_contagious a = Inl AttributeError"
  by (simp add: is_contagious_def Stage_getattr_def)

lemma scan_cons: "scan_cellmates L self (c # cs) m = Inl AttributeError"
  by (simp add: is_contagious_raises)

text \<open>
  C3: on a susceptible agent that shares its cell with an infected agent and survives
  the traveller trial, the step raises \<^verbatim>\<open>AttributeError\<close> at the first
  \<^verbatim>\<open>is_contagious\<close> call: no occupant is found contagious and no contagion trial is run.
\<close>

theorem contact_scan_raises:
  "is_contagious (mk_agent 1 INFECTED 12 False) = Inl AttributeError
   \<and> ISEpiAgent_step ex_lib 0 ex_contact = Inl AttributeError"
  by (simp add: is_contagious_raises ISEpiAgent_step_def traveler_trial_def stage_branch_def
      susceptible_branch_def get_cell_list_contents_def scan_cons ex_contact_def
      mk_model_sel mk_agent_sel ex_lib_sel)

text \<open>
  C7: the code escalates an infected, still incubating agent whose severity trial
  succeeds to \<^verbatim>\<open>Stage.SEVERE\<close> (line 130), but \<^verbatim>\<open>Stage\<close> has no member of that name:
  the assignment raises \<^verbatim>\<open>AttributeError\<close>, so no agent is ever SEVERE and the step of
  the escalated agent does not return.
\<close>

theorem severe_escalation_raises:
  "Stage_getattr ''SEVERE'' = Inl AttributeError
   \<and> bernoulli_rvs ex_lib (severity_value (hd (agents ex_severe))) (np_random ex_severe)
       = Inr (True, [])
   \<and> ISEpiAgent_step ex_lib 0 ex_severe = Inl AttributeError"
  by (simp add: Stage_getattr_def ISEpiAgent_step_def traveler_trial_def stage_branch_def
      infected_branch_def ex_severe_def put_def mk_model_sel mk_agent_sel ex_lib_sel)

lemma lookup_agent_uid: "lookup_agent as i = Some a \<Longrightarrow> unique_id a = i"
  by (induction as) (auto split: if_splits)

lemma lookup_agent_replace:
  "lookup_agent as i = Some a \<Longrightarrow> unique_id b = i \<Longrightarrow>
   lookup_agent (map (\<lambda>x. if unique_id x = i then b else x) as) i = Some b"
  by (induction as) (auto split: if_splits)

lemma lookup_agent_put:
  assumes "lookup_agent (agents m) i = Some a" "unique_id b = i"
  shows "lookup_agent (agents (put b m)) i = Some b"
  using lookup_agent_replace[OF assms] assms(2) by (simp add: put_def)

lemma put_put: "unique_id a = unique_id b \<Longrightarrow> put a (put b m) = put a m"
  by (auto simp: put_def)

lemma put_frame:
  "grid (put a m) = grid m" "random (put a m) = random m" "np_random (put a m) = np_random m"
  "put a (m\<lparr>np_random := g\<rparr>) = (put a m)\<lparr>np_random := g\<rparr>"
  by (simp_all add: put_def)

text \<open>
  C9, as the specification states it: a susceptible, non-isolated agent attempts a move
  whatever the infection outcome, also when the traveller trial infected it. In the code
  such an agent runs the branch of an infected agent in the same step and does not
  move: its dwelling counter stays at 3 where a move would have made it 2.
\<close>

theorem traveler_no_move_counterexample:
  "observe (ISEpiAgent_step ex_lib 0 (ex_traveler [1/4, 3/4])) = Inr [(INFECTED, 3, (0, 0))]"
  by (simp add: observe_def ISEpiAgent_step_def traveler_trial_def stage_branch_def
      infected_branch_def ex_traveler_def put_def mk_model_sel mk_agent_sel ex_lib_sel Let_def)

text \<open>
  C9, amended: an agent that begins a step SUSCEPTIBLE and is infected by the
  returning-traveller trial does not attempt a move in that step. The step continues at
  once with the branch of an infected agent and its result is this: when incubation and
  recovery time have elapsed the agent is RECOVERED; otherwise its recovery counter is
  incremented and the severity trial is run, and the agent stays INFECTED when that
  trial fails. Whenever the step returns, the agent's position and dwelling counter,
  the grid and the model's random stream are as they were before the step.
\<close>

theorem traveler_infected_no_move:
  assumes look: "lookup_agent (agents m) i = Some self"
      and sus: "stage self = SUSCEPTIBLE"
      and draw: "bernoulli_rvs L (rate_inbound m) (np_random m) = Inr (True, g)"
  shows "ISEpiAgent_step L i m =
           (if curr_incubation self + curr_recovery self < incubation_time self + recovery_time self
            then (case bernoulli_rvs L (severity_value self) g of
                    Inl e \<Rightarrow> Inl e
                  | Inr (b, g') \<Rightarrow>
                      if b then Inl AttributeError
                      else Inr (put (self\<lparr>stage := INFECTED,
                                          curr_recovery := curr_recovery self + 1,
                                          astep := astep self + 1\<rparr>)
                                  (m\<lparr>np_random := g'\<rparr>)))
            else Inr (put (self\<lparr>stage := RECOVERED, astep := astep self + 1\<rparr>)
                        (m\<lparr>np_random := g\<rparr>)))
       \<and> (\<forall>m'. ISEpiAgent_step L i m = Inr m' \<longrightarrow>
            grid m' = grid m \<and> random m' = random m
            \<and> (\<exists>self'. lookup_agent (agents m') i = Some self'
                  \<and> pos self' = pos self \<and> curr_dwelling self' = curr_dwelling self
                  \<and> (stage self' = INFECTED \<or> stage self' = RECOVERED)))"
proof -
  let ?sI = "self\<lparr>stage := INFECTED\<rparr>"
  let ?mI = "put ?sI (m\<lparr>np_random := g\<rparr>)"
  let ?inc = "curr_incubation self + curr_recovery self < incubation_time self + recovery_time self"
  let ?a1 = "self\<lparr>stage := INFECTED, curr_recovery := curr_recovery self + 1,
                    astep := astep self + 1\<rparr>"
  let ?a2 = "self\<lparr>stage := RECOVERED, astep := astep self + 1\<rparr>"
  have uid: "unique_id self = i" using look by (rule lookup_agent_uid)
  have t: "traveler_trial L self m = Inr (?sI, ?mI)"
    using sus draw by (simp add: traveler_trial_def Let_def)
  have sb: "stage_branch L ?sI ?mI = infected_branch L ?sI ?mI"
    by (simp add: stage_branch_def)
  have st: "ISEpiAgent_step L i m =
              (case infected_branch L ?sI ?mI of
                 Inl e \<Rightarrow> Inl e
               | Inr (self2, m2) \<Rightarrow> Inr (put (self2\<lparr>astep := astep self2 + 1\<rparr>) m2))"
    by (simp add: ISEpiAgent_step_def look t sb)
  have eq: "ISEpiAgent_step L i m =
           (if ?inc
            then (case bernoulli_rvs L (severity_value self) g of
                    Inl e \<Rightarrow> Inl e
                  | Inr (b, g') \<Rightarrow>
                      if b then Inl AttributeError
                      else Inr (put ?a1 (m\<lparr>np_random := g'\<rparr>)))
            else Inr (put ?a2 (m\<lparr>np_random := g\<rparr>)))"
  proof (cases ?inc)
    case False
    then have "infected_branch L ?sI ?mI
                 = Inr (self\<lparr>stage := RECOVERED\<rparr>, put (self\<lparr>stage := RECOVERED\<rparr>) ?mI)"
      by (simp add: infected_branch_def Let_def)
    then show ?thesis unfolding st using False by (simp add: put_put put_frame)
  next
    case True
    let ?s1 = "self\<lparr>stage := INFECTED, curr_recovery := curr_recovery self + 1\<rparr>"
    have ib: "infected_branch L ?sI ?mI
                = (case bernoulli_rvs L (severity_value self) g of
                     Inl e \<Rightarrow> Inl e
                   | Inr (b, g') \<Rightarrow>
                       if b then Inl AttributeError
                       else Inr (?s1, (put ?s1 ?mI)\<lparr>np_random := g'\<rparr>))"
      using True
      by (simp add: infected_branch_def Let_def put_frame Stage_getattr_def
          split: sum.splits prod.splits)
    show ?thesis unfolding st ib using True
      by (simp add: put_put put_frame split: sum.splits prod.splits)
  qed
  have fr: "grid m' = grid m \<and> random m' = random m
            \<and> (\<exists>self'. lookup_agent (agents m') i = Some self'
                  \<and> pos self' = pos self \<and> curr_dwelling self' = curr_dwelling self
                  \<and> (stage self' = INFECTED \<or> stage self' = RECOVERED))"
    if ret: "ISEpiAgent_step L i m = Inr m'" for m'
  proof -
    from ret eq obtain a g2 where
      m': "m' = put a (m\<lparr>np_random := g2\<rparr>)" and a: "a = ?a1 \<or> a = ?a2"
      by (auto split: if_splits sum.splits prod.splits)
    have ua: "unique_id a = i" using a uid by auto
    have "lookup_agent (agents (m\<lparr>np_random := g2\<rparr>)) i = Some self" using look by simp
    then have la: "lookup_agent (agents m') i = Some a"
      unfolding m' using ua by (rule lookup_agent_put)
    have "pos a = pos self \<and> curr_dwelling a = curr_dwelling self
          \<and> (stage a = INFECTED \<or> stage a = RECOVERED)" using a by auto
    with la show ?thesis by (simp add: m' put_frame)
  qed
  from eq fr show ?thesis by blast
qed

lemma ex_traveler_contact_sel:
  "agents ex_traveler_contact =
     [(mk_agent 0 SUSCEPTIBLE 10 False)\<lparr>curr_dwelling := 3, recovery_time := 15,
                                          severity_value := 1/8000\<rparr>,
      mk_agent 1 INFECTED 12 False]"
  "np_random ex_traveler_contact = [1/4, 1/2]"
  "rate_inbound ex_traveler_contact = 1/2"
  by (simp_all add: ex_traveler_contact_def mk_model_sel)

text \<open>
  A susceptible agent with three steps of dwelling left that shares its cell with an
  infected agent: the traveller trial infects it, the severity trial fails, and after
  the step it is INFECTED with recovery counter 1, still in its cell with three steps of
  dwelling left.
\<close>

theorem traveler_infected_no_move_witness:
  "(\<exists>m'. ISEpiAgent_step ex_lib 0 ex_traveler_contact = Inr m'
     \<and> map (\<lambda>a. (stage a, curr_recovery a, curr_dwelling a, pos a, astep a)) (agents m')
         = [(INFECTED, 1, 3, (0, 0), 1), (INFECTED, 0, 0, (0, 0), 0)]
     \<and> grid m' = grid ex_traveler_contact \<and> random m' = random ex_traveler_contact
     \<and> np_random m' = [])"
proof -
  let ?a = "(mk_agent 0 SUSCEPTIBLE 10 False)\<lparr>curr_dwelling := 3, recovery_time := 15,
                                               severity_value := 1/8000\<rparr>"
  have l: "lookup_agent (agents ex_traveler_contact) 0 = Some ?a"
    by (simp add: ex_traveler_contact_sel mk_agent_sel)
  have s: "stage ?a = SUSCEPTIBLE" by (simp add: mk_agent_sel)
  have d: "bernoulli_rvs ex_lib (rate_inbound ex_traveler_contact) (np_random ex_traveler_contact)
             = Inr (True, [1/2])"
    by (simp add: ex_traveler_contact_sel ex_lib_sel)
  from traveler_infected_no_move[OF l s d]
  have "ISEpiAgent_step ex_lib 0 ex_traveler_contact
          = Inr (put (?a\<lparr>stage := INFECTED, curr_recovery := curr_recovery ?a + 1,
                          astep := astep ?a + 1\<rparr>)
                   (ex_traveler_contact\<lparr>np_random := []\<rparr>))"
    by (simp add: mk_agent_sel ex_lib_sel)
  then show ?thesis
    by (simp add: put_def ex_traveler_contact_sel mk_agent_sel)
qed

subsection \<open>Runs and the random streams\<close>

lemma py_range_1: "py_range 1 = [0]"
  by code_simp

text \<open>
  C4: the scheduler's shuffle and the movement choice draw from the model's seeded
  stream, but the Bernoulli and Poisson draws of the agents draw from the global stream.
  Two runs of one step whose models differ in nothing but the state of the global stream
  (same agents, grid, parameters and state of the model's stream) end differently: in
  one the traveller trial infects the agent, in the other it does not and the run aborts
  in the scan of the cell.
\<close>

theorem same_seed_runs_differ:
  "ex_traveler [3/4] = (ex_traveler [1/4, 3/4])\<lparr>np_random := [3/4]\<rparr>
   \<and> run_schedule ex_lib 1 (GrahamActivation_init 1) (ex_traveler [1/4, 3/4]) = Inr [[INFECTED]]
   \<and> run_schedule ex_lib 1 (GrahamActivation_init 1) (ex_traveler [3/4]) = Inl AttributeError"
proof -
  have same: "ex_traveler [3/4] = (ex_traveler [1/4, 3/4])\<lparr>np_random := [3/4]\<rparr>"
    by (simp add: ex_traveler_def mk_model_def)
  have infected:
    "run_schedule ex_lib 1 (GrahamActivation_init 1) (ex_traveler [1/4, 3/4]) = Inr [[INFECTED]]"
    by (simp add: GrahamActivation_step_def reset_stages_def py_range_1 GrahamActivation_init_def
        ISEpiAgent_step_def traveler_trial_def stage_branch_def infected_branch_def
        ex_traveler_def put_def mk_model_sel mk_agent_sel ex_lib_sel Let_def)
  have aborted:
    "run_schedule ex_lib 1 (GrahamActivation_init 1) (ex_traveler [3/4]) = Inl AttributeError"
    by (simp add: GrahamActivation_step_def reset_stages_def py_range_1 GrahamActivation_init_def
        ISEpiAgent_step_def traveler_trial_def stage_branch_def susceptible_branch_def
        get_cell_list_contents_def is_contagious_raises
        ex_traveler_def mk_model_sel mk_agent_sel ex_lib_sel Let_def)
  from same infected aborted show ?thesis by blast
qed

end
